theory Spec2Isabelle
  imports Main
begin

section \<open>Python string primitives used by jenjoy.py\<close>

text \<open>
  Python strings are sequences of code points. They are modelled as \<^typ>\<open>string\<close>, whose
  characters carry the code points 0 to 255; code points above 255 are outside this model.
  The character classes below are Python's own for that range: \<open>str.isspace\<close> (which is also
  the class \<open>\s\<close> of \<open>re\<close> on \<open>str\<close> patterns), the class \<open>\w\<close> of \<open>re\<close> with
  \<open>re.UNICODE\<close>, and the line boundaries of \<open>str.splitlines\<close>.
\<close>

definition isspace :: "char \<Rightarrow> bool" where
  "isspace c = (let n = (of_char c :: nat)
     in (9 \<le> n \<and> n \<le> 13) \<or> (28 \<le> n \<and> n \<le> 32) \<or> n = 133 \<or> n = 160)"


definition is_linebreak :: "char \<Rightarrow> bool" where
  "is_linebreak c = (let n = (of_char c :: nat)
     in (10 \<le> n \<and> n \<le> 13) \<or> (28 \<le> n \<and> n \<le> 30) \<or> n = 133)"

text \<open>\<open>[ \t]\<close>: the character class of the regular expression in \<open>extract_doc_comment\<close>.\<close>

definition is_space_tab :: "char \<Rightarrow> bool" where
  "is_space_tab c = (c = CHR '' '' \<or> c = CHR 0x09)"

text \<open>\<open>s.startswith(p)\<close>.\<close>

definition startswith :: "string \<Rightarrow> string \<Rightarrow> bool" where
  "startswith p s = (take (length p) s = p)"

text \<open>\<open>s.strip()\<close> with no argument: whitespace removed at both ends.\<close>

definition str_strip :: "string \<Rightarrow> string" where
  "str_strip s = rev (dropWhile isspace (rev (dropWhile isspace s)))"

text \<open>\<open>sep.join(xs)\<close>.\<close>

fun join :: "string \<Rightarrow> string list \<Rightarrow> string" where
  "join sep [] = []"
| "join sep [x] = x"
| "join sep (x # y # ys) = x @ sep @ join sep (y # ys)"

text \<open>
  \<open>s.splitlines()\<close>: the text is cut at every line boundary, \<open>\r\n\<close> counting as one
  boundary; the boundaries are dropped and a boundary at the very end opens no further line.
\<close>

fun skip_break :: "string \<Rightarrow> string" where
  "skip_break [] = []"
| "skip_break (c # cs) =
     (if c = CHR 0x0D \<and> cs \<noteq> [] \<and> hd cs = CHR 0x0A then tl cs else cs)"

function splitlines :: "string \<Rightarrow> string list" where
  "splitlines [] = []"
| "splitlines (c # cs) =
     takeWhile (\<lambda>x. \<not> is_linebreak x) (c # cs)
       # splitlines (skip_break (dropWhile (\<lambda>x. \<not> is_linebreak x) (c # cs)))"
  by pat_completeness auto
termination
proof (relation "measure length", goal_cases)
  case 1
  show ?case by simp
next
  case (2 c cs)
  let ?r = "dropWhile (\<lambda>x. \<not> is_linebreak x) (c # cs)"
  show ?case
  proof (cases ?r)
    case Nil
    then show ?thesis by simp
  next
    case (Cons b bs)
    have "length (skip_break ?r) \<le> length bs"
      unfolding Cons by simp
    moreover have "length ?r \<le> length (c # cs)"
      by (rule length_dropWhile_le)
    ultimately show ?thesis
      unfolding Cons by simp
  qed
qed

text \<open>
  Substring search. \<open>find_sub sub s\<close> is the lowest index at which \<open>sub\<close> occurs in \<open>s\<close>,
  \<open>rfind_sub sub s\<close> the highest; \<open>None\<close> stands for Python's \<open>-1\<close>.
\<close>

fun find_sub :: "string \<Rightarrow> string \<Rightarrow> nat option" where
  "find_sub sub [] = (if sub = [] then Some 0 else None)"
| "find_sub sub (c # cs) =
     (if startswith sub (c # cs) then Some 0 else map_option Suc (find_sub sub cs))"

fun rfind_sub :: "string \<Rightarrow> string \<Rightarrow> nat option" where
  "rfind_sub sub [] = (if sub = [] then Some 0 else None)"
| "rfind_sub sub (c # cs) =
     (case rfind_sub sub cs of
        Some i \<Rightarrow> Some (Suc i)
      | None \<Rightarrow> if startswith sub (c # cs) then Some 0 else None)"

text \<open>\<open>s.find(sub, start)\<close>: a negative \<open>start\<close> counts from the end; the result is \<open>-1\<close>
  when \<open>sub\<close> does not occur at or after \<open>start\<close>.\<close>

definition str_find :: "string \<Rightarrow> string \<Rightarrow> int \<Rightarrow> int" where
  "str_find sub s start =
     (let n = int (length s);
          st = (if start < 0 then max 0 (start + n) else start)
      in if st > n then - 1
         else case find_sub sub (drop (nat st) s) of
                None \<Rightarrow> - 1
              | Some i \<Rightarrow> st + int i)"

text \<open>\<open>s.rfind(sub)\<close>.\<close>

definition str_rfind :: "string \<Rightarrow> string \<Rightarrow> int" where
  "str_rfind sub s = (case rfind_sub sub s of None \<Rightarrow> - 1 | Some i \<Rightarrow> int i)"

text \<open>\<open>s[i:j]\<close>: negative bounds count from the end, and both bounds are clamped to the text.\<close>

definition slice_index :: "nat \<Rightarrow> int \<Rightarrow> nat" where
  "slice_index n i = (if i < 0 then nat (max 0 (i + int n)) else min n (nat i))"

definition slice :: "string \<Rightarrow> int \<Rightarrow> int \<Rightarrow> string" where
  "slice s i j = (let a = slice_index (length s) i; b = slice_index (length s) j
                  in take (b - a) (drop a s))"

text \<open>
  \<open>s.replace(old, new, count)\<close>: the occurrences of \<open>old\<close> are replaced from the left, without
  overlap and without rescanning the replacement; at most \<open>count\<close> of them when \<open>count\<close> is
  not negative, all of them otherwise (Python's default \<open>count\<close> is \<open>-1\<close>). An empty \<open>old\<close>
  occurs before every character and at the end.
\<close>

fun replace_empty :: "string \<Rightarrow> int \<Rightarrow> string \<Rightarrow> string" where
  "replace_empty new count [] = (if count = 0 then [] else new)"
| "replace_empty new count (c # cs) =
     (if count = 0 then c # cs else new @ c # replace_empty new (count - 1) cs)"

function replace_nonempty :: "string \<Rightarrow> string \<Rightarrow> int \<Rightarrow> string \<Rightarrow> string" where
  "replace_nonempty old new count [] = []"
| "replace_nonempty old new count (c # cs) =
     (if count = 0 then c # cs
      else if old \<noteq> [] \<and> startswith old (c # cs)
           then new @ replace_nonempty old new (count - 1) (drop (length old) (c # cs))
           else c # replace_nonempty old new count cs)"
  by pat_completeness auto
termination
  by (relation "measure (\<lambda>(old, new, count, s). length s)") auto

definition str_replace :: "string \<Rightarrow> string \<Rightarrow> int \<Rightarrow> string \<Rightarrow> string" where
  "str_replace old new count s =
     (if old = [] then replace_empty new count s else replace_nonempty old new count s)"

section \<open>extract_doc_comment\<close>

text \<open>
  \<open>re.search(r"[ \t]*$", s)\<close>: the search tries every start position from the left; at a
  position the greedy \<open>[ \t]*\<close> takes the whole run of spaces and tabs, and \<open>$\<close> holds at the
  end of the text or just before a newline that ends the text. The result is the start of
  the match (\<open>prefix.start()\<close>); \<open>None\<close> would be a failed search.
\<close>

definition at_dollar :: "string \<Rightarrow> bool" where
  "at_dollar r = (r = [] \<or> r = [CHR 0x0A])"

fun re_search_trailing_blanks :: "string \<Rightarrow> nat option" where
  "re_search_trailing_blanks [] = Some 0"
| "re_search_trailing_blanks (c # cs) =
     (if at_dollar (dropWhile is_space_tab (c # cs)) then Some 0
      else map_option Suc (re_search_trailing_blanks cs))"

definition extract_doc_comment :: "string \<Rightarrow> string" where
  "extract_doc_comment text =
     (let start0 = str_rfind ''/**'' text;
          start = (if start0 \<noteq> - 1
                   then (case re_search_trailing_blanks (slice text 0 start0) of
                           Some p \<Rightarrow> int p
                         | None \<Rightarrow> start0)
                   else start0);
          endp = str_find ''*/'' text start
      in if start \<noteq> - 1 \<and> endp \<noteq> - 1 then slice text start (endp + 2) else text)"

section \<open>insert_doc_comment\<close>




section \<open>The stream reassembler in main\<close>

text \<open>
  \<open>re.sub(r"\[h_newline\]", "\n", content)\<close>: the pattern is a literal, so the substitution
  is the replacement of all its occurrences from the left, without overlap.
\<close>

definition re_sub_h_newline :: "string \<Rightarrow> string" where
  "re_sub_h_newline content = str_replace ''[h_newline]'' ''\<newline>'' (- 1) content"

definition process_line :: "string \<Rightarrow> string" where
  "process_line line = re_sub_h_newline (str_replace ''data: '' [] 1 line)"

text \<open>The loop \<open>for line in lines\<close>, appending to \<open>comment_parts\<close>.\<close>

fun collect_parts :: "string list \<Rightarrow> string list \<Rightarrow> string list" where
  "collect_parts [] comment_parts = comment_parts"
| "collect_parts (line # rest) comment_parts =
     collect_parts rest (comment_parts @ [process_line line])"

definition reassemble :: "string list \<Rightarrow> string" where
  "reassemble lines = join [] (collect_parts lines [])"

section \<open>count_tokens\<close>



section \<open>get_method_nodes\<close>

datatype py_error = IndexError

text \<open>
  A declaration record, as the tuples of \<open>get_method_nodes\<close>:
  \<open>(start_byte, end_byte, method_source, has_doc)\<close>.
\<close>

type_synonym decl_span = "nat \<times> nat \<times> string \<times> bool"



text \<open>
  \<open>re.search(r"/\*\*.*\*/", line)\<close>: at some position the text \<open>/**\<close>, then any characters
  other than a newline, then \<open>*/\<close>.
\<close>

fun dotstar_close :: "string \<Rightarrow> bool" where
  "dotstar_close [] = False"
| "dotstar_close (c # cs) =
     (startswith ''*/'' (c # cs) \<or> (c \<noteq> CHR 0x0A \<and> dotstar_close cs))"

fun re_search_doc :: "string \<Rightarrow> bool" where
  "re_search_doc [] = False"
| "re_search_doc (c # cs) =
     ((startswith ''/**'' (c # cs) \<and> dotstar_close (drop 3 (c # cs))) \<or> re_search_doc cs)"

text \<open>\<open>range(start, stop, -1)\<close>.\<close>

definition range_down :: "int \<Rightarrow> int \<Rightarrow> int list" where
  "range_down start stop = map (\<lambda>k. start - int k) [0..<nat (start - stop)]"

text \<open>
  The body of the loop \<open>for i in range(start_line-1, max(-1, start_line-6), -1)\<close>. Reading
  \<open>lines[i]\<close> beyond the last line raises \<open>IndexError\<close>.
\<close>

fun lookback :: "string list \<Rightarrow> int list \<Rightarrow> py_error + bool" where
  "lookback lines [] = Inr False"
| "lookback lines (i # rest) =
     (if i < 0 then Inr False
      else if length lines \<le> nat i then Inl IndexError
      else if re_search_doc (lines ! nat i) then Inr True
      else if str_strip (lines ! nat i) = [] then lookback lines rest
      else if \<not> startswith ''*'' (str_strip (lines ! nat i))
              \<and> \<not> startswith ''//'' (str_strip (lines ! nat i)) then Inr False
      else lookback lines rest)"

definition detect_doc :: "string list \<Rightarrow> nat \<Rightarrow> py_error + bool" where
  "detect_doc lines start_line =
     lookback lines (range_down (int start_line - 1) (max (- 1) (int start_line - 6)))"

text \<open>
  The syntax tree comes from the tree-sitter parser, which is not part of the program: a
  node carries its type, its byte span, the row of its start point and its children.
\<close>

datatype node = Node (node_type: string) (start_byte: nat) (end_byte: nat)
  (start_row: nat) (children: "node list")

definition documentable :: "string \<Rightarrow> bool" where
  "documentable ty = (ty = ''method_declaration'' \<or> ty = ''class_declaration''
                       \<or> ty = ''constructor_declaration'')"

fun visit :: "string \<Rightarrow> node \<Rightarrow> py_error + decl_span list"
  and visit_children :: "string \<Rightarrow> node list \<Rightarrow> py_error + decl_span list" where
  "visit source_code (Node ty sb eb row cs) =
     (case (if documentable ty
            then (case detect_doc (splitlines source_code) row of
                    Inl e \<Rightarrow> Inl e
                  | Inr h \<Rightarrow> Inr [(sb, eb, slice source_code (int sb) (int eb), h)])
            else Inr []) of
        Inl e \<Rightarrow> Inl e
      | Inr own \<Rightarrow>
          (case visit_children source_code cs of
             Inl e \<Rightarrow> Inl e
           | Inr below \<Rightarrow> Inr (own @ below)))"
| "visit_children source_code [] = Inr []"
| "visit_children source_code (child # rest) =
     (case visit source_code child of
        Inl e \<Rightarrow> Inl e
      | Inr first \<Rightarrow>
          (case visit_children source_code rest of
             Inl e \<Rightarrow> Inl e
           | Inr others \<Rightarrow> Inr (first @ others)))"


section \<open>write_code_snippet_to_file\<close>



section \<open>The pipeline driver: main\<close>







text \<open>The write-back loop \<open>for original_code, merged_code in generated_doc_comments.items()\<close>.\<close>

fun write_back :: "string \<Rightarrow> (string \<times> string) list \<Rightarrow> string" where
  "write_back file_content [] = file_content"
| "write_back file_content ((original_code, merged_code) # rest) =
     write_back (str_replace original_code merged_code (- 1) file_content) rest"




section \<open>Test fixtures and the wording of the specification\<close>


text \<open>
  The specification's reading of the first step of the stream reassembler: the marker is
  removed when the fragment starts with it.
\<close>

definition strip_marker_prefix :: "string \<Rightarrow> string" where
  "strip_marker_prefix fragment =
     (if startswith ''data: '' fragment then drop (length ''data: '') fragment else fragment)"










text \<open>A class of 2058 tokens that holds a method of 7 tokens.\<close>

definition oversized_class :: string where
  "oversized_class = ''class A {void f() {}'' @ replicate 2048 (CHR '';'') @ ''}''"

section \<open>Facts about the string primitives\<close>

lemma startswith_Nil [simp]: "startswith [] s"
  by (simp add: startswith_def)

lemma startswith_Cons_Nil [simp]: "\<not> startswith (c # p) []"
  by (simp add: startswith_def)

lemma startswith_Cons_Cons [simp]: "startswith (a # p) (b # s) = (a = b \<and> startswith p s)"
  by (auto simp: startswith_def)

lemma startswith_iff: "startswith p s = (\<exists>r. s = p @ r)"
proof
  assume "startswith p s"
  then have "s = p @ drop (length p) s"
    by (metis append_take_drop_id startswith_def)
  then show "\<exists>r. s = p @ r" ..
next
  assume "\<exists>r. s = p @ r"
  then show "startswith p s" by (auto simp: startswith_def)
qed

lemma find_sub_None_iff: "(find_sub sub s = None) = (\<not> (\<exists>a b. s = a @ sub @ b))"
proof (induction s)
  case Nil
  then show ?case by auto
next
  case (Cons c cs)
  show ?case
  proof (cases "startswith sub (c # cs)")
    case True
    then obtain r where "c # cs = sub @ r" by (auto simp: startswith_iff)
    then have "c # cs = [] @ sub @ r" by simp
    then have "\<exists>a b. c # cs = a @ sub @ b" by blast
    with True show ?thesis by simp
  next
    case False
    have "(\<exists>a b. c # cs = a @ sub @ b) = (\<exists>a b. cs = a @ sub @ b)"
    proof
      assume "\<exists>a b. c # cs = a @ sub @ b"
      then obtain a b where ab: "c # cs = a @ sub @ b" by blast
      show "\<exists>a b. cs = a @ sub @ b"
      proof (cases a)
        case Nil
        with ab False show ?thesis by (auto simp: startswith_iff)
      next
        case (Cons x xs)
        with ab have "cs = xs @ sub @ b" by simp
        then show ?thesis by blast
      qed
    next
      assume "\<exists>a b. cs = a @ sub @ b"
      then obtain a b where "cs = a @ sub @ b" by blast
      then have "c # cs = (c # a) @ sub @ b" by simp
      then show "\<exists>a b. c # cs = a @ sub @ b" by blast
    qed
    with False Cons.IH show ?thesis by simp
  qed
qed

lemma rfind_sub_None_iff: "(rfind_sub sub s = None) = (find_sub sub s = None)"
  by (induction s) (auto split: option.splits)

lemma rfind_sub_le: "rfind_sub sub s = Some i \<Longrightarrow> i \<le> length s"
  by (induction s arbitrary: i) (auto split: option.splits if_splits)

lemma find_sub_skip:
  assumes "sub \<noteq> []" and "\<forall>c \<in> set w. c \<noteq> hd sub"
  shows "find_sub sub (w @ r) = map_option (\<lambda>i. length w + i) (find_sub sub r)"
  using assms(2)
proof (induction w)
  case Nil
  then show ?case by (simp add: option.map_ident)
next
  case (Cons c w)
  from assms(1) obtain x xs where sub: "sub = x # xs" by (cases sub) auto
  from Cons.prems have "c \<noteq> x" by (simp add: sub)
  then have "\<not> startswith sub (c # w @ r)" by (simp add: sub)
  moreover from Cons have "find_sub sub (w @ r) = map_option (\<lambda>i. length w + i) (find_sub sub r)"
    by simp
  ultimately show ?case by (simp add: option.map_comp comp_def)
qed

lemma at_dollar_window:
  "at_dollar (dropWhile is_space_tab s) \<Longrightarrow> c \<in> set s \<Longrightarrow> is_space_tab c \<or> c = CHR 0x0A"
proof -
  assume d: "at_dollar (dropWhile is_space_tab s)" and c: "c \<in> set s"
  have "s = takeWhile is_space_tab s @ dropWhile is_space_tab s" by simp
  then have "set s = set (takeWhile is_space_tab s) \<union> set (dropWhile is_space_tab s)"
    by (metis set_append)
  with c have "c \<in> set (takeWhile is_space_tab s) \<or> c \<in> set (dropWhile is_space_tab s)"
    by blast
  then show ?thesis
  proof
    assume "c \<in> set (takeWhile is_space_tab s)"
    then show ?thesis by (auto dest: set_takeWhileD)
  next
    assume cd: "c \<in> set (dropWhile is_space_tab s)"
    from d have "dropWhile is_space_tab s = [] \<or> dropWhile is_space_tab s = [CHR 0x0A]"
      unfolding at_dollar_def .
    then show ?thesis
    proof
      assume "dropWhile is_space_tab s = []"
      with cd show ?thesis by (metis empty_iff empty_set)
    next
      assume "dropWhile is_space_tab s = [CHR 0x0A]"
      with cd have "c \<in> set [CHR 0x0A]" by metis
      then show ?thesis by simp
    qed
  qed
qed

lemma re_search_trailing_blanks_window:
  "\<exists>p. re_search_trailing_blanks s = Some p \<and> p \<le> length s
     \<and> (\<forall>c \<in> set (drop p s). is_space_tab c \<or> c = CHR 0x0A)"
proof (induction s)
  case Nil
  then show ?case by simp
next
  case (Cons c cs)
  show ?case
  proof (cases "at_dollar (dropWhile is_space_tab (c # cs))")
    case True
    then have "\<forall>x \<in> set (c # cs). is_space_tab x \<or> x = CHR 0x0A"
      using at_dollar_window by blast
    with True show ?thesis by simp
  next
    case False
    with Cons show ?thesis by auto
  qed
qed

lemma slice_prefix: "0 \<le> i \<Longrightarrow> slice s 0 i = take (nat i) s"
  by (simp add: slice_def slice_index_def min_def)

lemma replace_nonempty_zero: "replace_nonempty old new 0 s = s"
  by (cases s) simp_all

lemma replace_nonempty_unfold:
  assumes "old \<noteq> []" and "count \<noteq> 0"
  shows "replace_nonempty old new count s =
     (case find_sub old s of
        None \<Rightarrow> s
      | Some i \<Rightarrow> take i s @ new @ replace_nonempty old new (count - 1) (drop (i + length old) s))"
proof (induction s)
  case Nil
  from assms(1) show ?case by simp
next
  case (Cons c cs)
  show ?case
  proof (cases "startswith old (c # cs)")
    case True
    with assms show ?thesis by simp
  next
    case False
    with assms Cons show ?thesis by (simp split: option.splits)
  qed
qed

lemma str_replace_once:
  assumes "old \<noteq> []"
  shows "str_replace old new 1 s =
     (case find_sub old s of
        None \<Rightarrow> s
      | Some i \<Rightarrow> take i s @ new @ drop (i + length old) s)"
  using assms replace_nonempty_unfold [OF assms, of 1 new s]
  by (simp add: str_replace_def replace_nonempty_zero split: option.splits)

lemma collect_parts_eq: "collect_parts lines acc = acc @ map process_line lines"
  by (induction lines arbitrary: acc) simp_all

lemma join_Nil_concat: "join [] xs = concat xs"
  by (induction "[] :: string" xs rule: join.induct) simp_all

lemma reassemble_concat: "reassemble frags = concat (map process_line frags)"
  by (simp add: reassemble_def collect_parts_eq join_Nil_concat)

lemma process_line_eq:
  "process_line f = re_sub_h_newline
     (case find_sub ''data: '' f of None \<Rightarrow> f | Some i \<Rightarrow> take i f @ drop (i + 6) f)"
proof -
  have ne: "''data: '' \<noteq> []" by simp
  have len: "i + length ''data: '' = i + 6" for i by simp
  show ?thesis
    unfolding process_line_def str_replace_once [OF ne] len by (simp split: option.splits)
qed

lemma replace_nonempty_absent:
  assumes "old \<noteq> []" "count \<noteq> 0" "find_sub old t = None"
  shows "replace_nonempty old new count t = t"
proof -
  have "replace_nonempty old new count t = (case find_sub old t of
        None \<Rightarrow> t
      | Some i \<Rightarrow> take i t @ new @ replace_nonempty old new (count - 1) (drop (i + length old) t))"
    using assms(1,2) by (rule replace_nonempty_unfold)
  also have "\<dots> = t" unfolding assms(3) by simp
  finally show ?thesis .
qed

lemma replace_nonempty_present:
  assumes "old \<noteq> []" "count \<noteq> 0" "find_sub old t = Some i"
  shows "replace_nonempty old new count t = take i t @ new @ replace_nonempty old new (count - 1) (drop (i + length old) t)"
proof -
  have "replace_nonempty old new count t = (case find_sub old t of
        None \<Rightarrow> t
      | Some i \<Rightarrow> take i t @ new @ replace_nonempty old new (count - 1) (drop (i + length old) t))"
    using assms(1,2) by (rule replace_nonempty_unfold)
  also have "\<dots> = take i t @ new @ replace_nonempty old new (count - 1) (drop (i + length old) t)" unfolding assms(3) by simp
  finally show ?thesis .
qed


lemma find_sub_Some_shorter:
  assumes "old \<noteq> []" and "find_sub old t = Some i"
  shows "length (drop (i + length old) t) < length t"
proof -
  from assms have "t \<noteq> []" by auto
  moreover from assms(1) have "0 < length old" by simp
  ultimately show ?thesis by simp
qed

lemma replace_nonempty_negative:
  assumes "old \<noteq> []"
  shows "count < 0 \<Longrightarrow> replace_nonempty old new count t = replace_nonempty old new (- 1) t"
proof (induction t arbitrary: count rule: length_induct)
  case (1 t)
  have c0: "count \<noteq> 0" and c1: "count - 1 < 0" using "1.prems" by simp_all
  have m0: "(- 1 :: int) \<noteq> 0" and m1: "(- 1 :: int) - 1 < 0" by simp_all
  show ?case
  proof (cases "find_sub old t")
    case None
    have "replace_nonempty old new count t = t" using assms c0 None by (rule replace_nonempty_absent)
    moreover have "replace_nonempty old new (- 1) t = t" using assms m0 None by (rule replace_nonempty_absent)
    ultimately show ?thesis by simp
  next
    case (Some i)
    let ?r = "drop (i + length old) t"
    have sh: "length ?r < length t" using assms Some by (rule find_sub_Some_shorter)
    have a: "replace_nonempty old new (count - 1) ?r = replace_nonempty old new (- 1) ?r"
      using "1.IH" sh c1 by blast
    have b: "replace_nonempty old new (- 1 - 1) ?r = replace_nonempty old new (- 1) ?r"
      using "1.IH" sh m1 by blast
    have "replace_nonempty old new count t = take i t @ new @ replace_nonempty old new (count - 1) ?r"
      using assms c0 Some by (rule replace_nonempty_present)
    moreover have "replace_nonempty old new (- 1) t = take i t @ new @ replace_nonempty old new (- 1 - 1) ?r"
      using assms m0 Some by (rule replace_nonempty_present)
    ultimately show ?thesis unfolding a b by simp
  qed
qed

lemma str_replace_all_unfold:
  assumes "old \<noteq> []"
  shows "str_replace old new (- 1) s =
     (case find_sub old s of
        None \<Rightarrow> s
      | Some i \<Rightarrow> take i s @ new @ str_replace old new (- 1) (drop (i + length old) s))"
proof (cases "find_sub old s")
  case None
  have "replace_nonempty old new (- 1) s = s" using assms _ None by (rule replace_nonempty_absent) simp
  with assms None show ?thesis by (simp add: str_replace_def)
next
  case (Some i)
  have "replace_nonempty old new (- 1) s
        = take i s @ new @ replace_nonempty old new (- 1 - 1) (drop (i + length old) s)"
    using assms _ Some by (rule replace_nonempty_present) simp
  also have "replace_nonempty old new (- 1 - 1) (drop (i + length old) s)
        = replace_nonempty old new (- 1) (drop (i + length old) s)"
    using assms by (rule replace_nonempty_negative) simp
  finally show ?thesis using assms Some by (simp add: str_replace_def)
qed
















section \<open>Facts about the loop of main\<close>








lemma write_back_Nil: "write_back file_content [] = file_content"
  by simp




lemma oversized_class_length: "length oversized_class = 2069"
  by (simp add: oversized_class_def)








section \<open>Evaluations of extract_doc_comment\<close>

text \<open>
  The search for \<open>[ \t]*$\<close> runs on the text before the last \<open>/**\<close>. When that text ends
  with a newline, \<open>$\<close> already holds before the newline, so the result starts at the
  blanks that end the previous line and holds the newline too.
\<close>

lemma extract_doc_comment_previous_line:
  "extract_doc_comment ''x \<newline>/** a */'' = '' \<newline>/** a */''"
  by code_simp

lemma extract_doc_comment_overlapping_markers:
  "extract_doc_comment ''a/**/b'' = ''/**/''"
  by code_simp

section \<open>The doc-comment extractor\<close>

text \<open>
  Claim C5. Given the text \<open>"blah blah\n  /** Does X.\n   * more.\n   */\ntrailing junk"\<close>,
  \<open>extract_doc_comment\<close> returns \<open>"  /** Does X.\n   * more.\n   */"\<close>: the two spaces before
  the last \<open>/**\<close> are part of the result, and the result ends with the first \<open>*/\<close> after it.
\<close>

theorem extract_doc_comment_example:
  "extract_doc_comment
     ''blah blah\<newline>  /** Does X.\<newline>   * more.\<newline>   */\<newline>trailing junk''
   = ''  /** Does X.\<newline>   * more.\<newline>   */''"
  by code_simp

text \<open>
  Claim C6. When the text has no \<open>/**\<close>, or has no \<open>*/\<close> at or after the start of its last
  \<open>/**\<close>, \<open>extract_doc_comment\<close> returns the whole text unchanged. The function has no
  failing branch: the searches return \<open>-1\<close> instead of raising, and slices are clamped.
\<close>

theorem extract_doc_comment_fallback:
  assumes "find_sub ''/**'' text = None
    \<or> (\<exists>i. rfind_sub ''/**'' text = Some i \<and> find_sub ''*/'' (drop i text) = None)"
  shows "extract_doc_comment text = text"
  using assms
proof
  assume "find_sub ''/**'' text = None"
  then have "rfind_sub ''/**'' text = None" by (simp add: rfind_sub_None_iff)
  then show ?thesis by (simp add: extract_doc_comment_def str_rfind_def)
next
  assume "\<exists>i. rfind_sub ''/**'' text = Some i \<and> find_sub ''*/'' (drop i text) = None"
  then obtain i where i: "rfind_sub ''/**'' text = Some i"
    and no_close: "find_sub ''*/'' (drop i text) = None" by blast
  from i have le: "i \<le> length text" by (rule rfind_sub_le)
  obtain p where p: "re_search_trailing_blanks (take i text) = Some p"
    and ple: "p \<le> length (take i text)"
    and win: "\<forall>c \<in> set (drop p (take i text)). is_space_tab c \<or> c = CHR 0x0A"
    using re_search_trailing_blanks_window by blast
  from ple le have pi: "p \<le> i" by simp
  have split_at: "drop p text = drop p (take i text) @ drop i text"
  proof -
    have "drop p text = drop p (take i text @ drop i text)" by simp
    also have "\<dots> = drop p (take i text) @ drop (p - length (take i text)) (drop i text)"
      by (rule drop_append)
    also have "p - length (take i text) = 0" using pi le by simp
    finally show ?thesis by simp
  qed
  have star: "\<forall>c \<in> set (drop p (take i text)). c \<noteq> hd ''*/''"
  proof
    fix c assume "c \<in> set (drop p (take i text))"
    with win have "is_space_tab c \<or> c = CHR 0x0A" by blast
    then show "c \<noteq> hd ''*/''" by (auto simp: is_space_tab_def)
  qed
  have ne: "''*/'' \<noteq> []" by simp
  have "find_sub ''*/'' (drop p (take i text) @ drop i text) = None"
    unfolding find_sub_skip [OF ne star] no_close by simp
  then have none: "find_sub ''*/'' (drop p text) = None"
    unfolding split_at .
  have "\<not> int (length text) < int p" using pi le by simp
  with none have endp: "str_find ''*/'' text (int p) = - 1"
    unfolding str_find_def Let_def by simp
  have s0: "str_rfind ''/**'' text = int i" using i by (simp add: str_rfind_def)
  have sl: "slice text 0 (int i) = take i text" by (simp add: slice_prefix)
  show ?thesis
    unfolding extract_doc_comment_def Let_def s0 sl p by (simp add: endp)
qed

theorem extract_doc_comment_fallback_witness:
  "rfind_sub ''/**'' ''*/ x /** y'' = Some 5
   \<and> find_sub ''*/'' (drop 5 ''*/ x /** y'') = None
   \<and> extract_doc_comment ''*/ x /** y'' = ''*/ x /** y''"
proof -
  have r: "rfind_sub ''/**'' ''*/ x /** y'' = Some 5" by code_simp
  have f: "find_sub ''*/'' (drop 5 ''*/ x /** y'') = None" by code_simp
  from r f have "find_sub ''/**'' ''*/ x /** y'' = None
    \<or> (\<exists>i. rfind_sub ''/**'' ''*/ x /** y'' = Some i
          \<and> find_sub ''*/'' (drop i ''*/ x /** y'') = None)"
    by blast
  then have "extract_doc_comment ''*/ x /** y'' = ''*/ x /** y''"
    by (rule extract_doc_comment_fallback)
  with r f show ?thesis by blast
qed

section \<open>The file update\<close>




section \<open>The stream reassembler\<close>

text \<open>
  Claim C3 (as amended). Each fragment loses the first occurrence of \<open>"data: "\<close>, wherever
  it stands in the fragment, then every occurrence of \<open>"[h_newline]"\<close> becomes a newline; the
  processed fragments are concatenated in arrival order with no separator. The fragments
  \<open>["data: line1[h_newline]line2", "data: tail"]\<close> give \<open>"line1\nline2tail"\<close>, and no
  fragment gives the empty text.
\<close>

theorem reassemble_first_occurrence:
  "reassemble fragments =
     concat (map (\<lambda>f. re_sub_h_newline
                    (case find_sub ''data: '' f of
                       None \<Rightarrow> f
                     | Some i \<Rightarrow> take i f @ drop (i + 6) f)) fragments)
   \<and> re_sub_h_newline s =
       (case find_sub ''[h_newline]'' s of
          None \<Rightarrow> s
        | Some i \<Rightarrow> take i s @ ''\<newline>'' @ re_sub_h_newline (drop (i + 11) s))
   \<and> reassemble [''data: line1[h_newline]line2'', ''data: tail''] = ''line1\<newline>line2tail''
   \<and> reassemble [] = []"
proof (intro conjI)
  have "map process_line fragments = map (\<lambda>f. re_sub_h_newline
                    (case find_sub ''data: '' f of
                       None \<Rightarrow> f
                     | Some i \<Rightarrow> take i f @ drop (i + 6) f)) fragments"
    by (rule map_cong [OF refl]) (rule process_line_eq)
  then show "reassemble fragments =
     concat (map (\<lambda>f. re_sub_h_newline
                    (case find_sub ''data: '' f of
                       None \<Rightarrow> f
                     | Some i \<Rightarrow> take i f @ drop (i + 6) f)) fragments)"
    by (simp only: reassemble_concat)
next
  have ne: "''[h_newline]'' \<noteq> []" by simp
  have len: "i + length ''[h_newline]'' = i + 11" for i by simp
  show "re_sub_h_newline s =
       (case find_sub ''[h_newline]'' s of
          None \<Rightarrow> s
        | Some i \<Rightarrow> take i s @ ''\<newline>'' @ re_sub_h_newline (drop (i + 11) s))"
    unfolding re_sub_h_newline_def
    using str_replace_all_unfold [OF ne, of "''\<newline>''" s] unfolding len .
next
  show "reassemble [''data: line1[h_newline]line2'', ''data: tail''] = ''line1\<newline>line2tail''"
    by code_simp
next
  show "reassemble [] = []" by code_simp
qed

theorem strip_marker_prefix_counterexample:
  "\<not> startswith ''data: '' ''x data: y''
   \<and> reassemble [''x data: y''] = ''x y''
   \<and> re_sub_h_newline (strip_marker_prefix ''x data: y'') = ''x data: y''"
  by code_simp

section \<open>The splice engine\<close>



section \<open>The span locator\<close>



section \<open>The pipeline driver\<close>











end
